theory Spec2Isabelle
  imports Main "HOL-Library.Word"
begin

unbundle bit_operations_syntax

section \<open>Goodix gtx8 touchscreen driver core: \<^verbatim>\<open>goodix_ts_core.h\<close>\<close>

type_synonym u8 = "8 word"
type_synonym u16 = "16 word"
type_synonym u32 = "32 word"

subsection \<open>Buffers\<close>

text \<open>
  A buffer \<^verbatim>\<open>u8 *data\<close> is the list of the bytes that belong to it. Reading a byte at an
  offset outside the list is the error \<open>OutOfBounds\<close>; the C code would read foreign
  memory there.
\<close>

datatype mem_error = OutOfBounds

definition rd :: "u8 list \<Rightarrow> nat \<Rightarrow> mem_error + u8" where
  "rd data k = (if k < length data then Inr (data ! k) else Inl OutOfBounds)"

subsection \<open>Checksum helpers\<close>

text \<open>
  \<^verbatim>\<open>checksum_u8\<close>: the loop \<^verbatim>\<open>for (i = 0; i < size; i++) checksum += data[i];\<close> with a
  \<^verbatim>\<open>u8\<close> accumulator and a \<^verbatim>\<open>u32\<close> counter. The counter cannot wrap: it is incremented
  only below \<open>sz\<close>.
\<close>

function checksum_u8_loop :: "u8 list \<Rightarrow> u32 \<Rightarrow> u32 \<Rightarrow> u8 \<Rightarrow> mem_error + u8" where
  "checksum_u8_loop data sz i checksum =
     (if i < sz then
        (case rd data (unat i) of
           Inl e \<Rightarrow> Inl e
         | Inr b \<Rightarrow> checksum_u8_loop data sz (i + 1) (checksum + b))
      else Inr checksum)"
  by pat_completeness auto
termination
proof (relation "measure (\<lambda>(data, sz, i, c). unat sz - unat i)")
  show "wf (measure (\<lambda>(data :: u8 list, sz :: u32, i :: u32, c :: u8). unat sz - unat i))"
    by simp
next
  fix data :: "u8 list" and sz i :: u32 and checksum b :: u8
  assume "i < sz"
  then have "unat sz - unat (i + 1) < unat sz - unat i"
    by unat_arith
  then show "((data, sz, i + 1, checksum + b), (data, sz, i, checksum))
      \<in> measure (\<lambda>(data, sz, i, c). unat sz - unat i)"
    by simp
qed

declare checksum_u8_loop.simps [simp del]

definition checksum_u8 :: "u8 list \<Rightarrow> u32 \<Rightarrow> mem_error + u8" where
  "checksum_u8 data sz = checksum_u8_loop data sz 0 0"

text \<open>
  \<^verbatim>\<open>checksum_u8_ys\<close>: the bound \<^verbatim>\<open>size - 2\<close> is computed in \<^verbatim>\<open>u32\<close> and wraps for
  \<open>sz < 2\<close>. The accumulator is \<^verbatim>\<open>u16\<close>. The return expression
  \<^verbatim>\<open>checksum - (data[size - 2] << 8 | data[size - 1])\<close> is evaluated in \<^verbatim>\<open>int\<close> after
  the integer promotions and converted to \<^verbatim>\<open>u16\<close> on return.
\<close>

function checksum_u8_ys_loop :: "u8 list \<Rightarrow> u32 \<Rightarrow> u32 \<Rightarrow> u16 \<Rightarrow> mem_error + u16" where
  "checksum_u8_ys_loop data sz i checksum =
     (if i < sz - 2 then
        (case rd data (unat i) of
           Inl e \<Rightarrow> Inl e
         | Inr b \<Rightarrow> checksum_u8_ys_loop data sz (i + 1) (checksum + ucast b))
      else Inr checksum)"
  by pat_completeness auto
termination
proof (relation "measure (\<lambda>(data, sz, i, c). unat (sz - 2) - unat i)")
  show "wf (measure (\<lambda>(data :: u8 list, sz :: u32, i :: u32, c :: u16). unat (sz - 2) - unat i))"
    by simp
next
  fix data :: "u8 list" and sz i :: u32 and checksum :: u16 and b :: u8
  assume "i < sz - 2"
  then have "unat (sz - 2) - unat (i + 1) < unat (sz - 2) - unat i"
    by unat_arith
  then show "((data, sz, i + 1, checksum + ucast b), (data, sz, i, checksum))
      \<in> measure (\<lambda>(data, sz, i, c). unat (sz - 2) - unat i)"
    by simp
qed

declare checksum_u8_ys_loop.simps [simp del]

definition checksum_u8_ys :: "u8 list \<Rightarrow> u32 \<Rightarrow> mem_error + u16" where
  "checksum_u8_ys data sz =
     (case checksum_u8_ys_loop data sz 0 0 of
        Inl e \<Rightarrow> Inl e
      | Inr checksum \<Rightarrow>
          (case rd data (unat (sz - 2)) of
             Inl e \<Rightarrow> Inl e
           | Inr hi \<Rightarrow>
               (case rd data (unat (sz - 1)) of
                  Inl e \<Rightarrow> Inl e
                | Inr lo \<Rightarrow>
                    Inr (word_of_int (uint checksum - (push_bit 8 (uint hi) OR uint lo))))))"

text \<open>
  The kernel's unaligned readers, on a buffer and a byte offset: \<^verbatim>\<open>le16_to_cpup\<close>,
  \<^verbatim>\<open>be16_to_cpup\<close>, \<^verbatim>\<open>le32_to_cpup\<close> and \<^verbatim>\<open>be32_to_cpup\<close> read two or four
  consecutive bytes at \<^verbatim>\<open>data + i\<close>.
\<close>

definition rd2 :: "u8 list \<Rightarrow> nat \<Rightarrow> mem_error + (u8 \<times> u8)" where
  "rd2 data k =
     (case rd data k of
        Inl e \<Rightarrow> Inl e
      | Inr b0 \<Rightarrow> (case rd data (k + 1) of Inl e \<Rightarrow> Inl e | Inr b1 \<Rightarrow> Inr (b0, b1)))"

definition rd4 :: "u8 list \<Rightarrow> nat \<Rightarrow> mem_error + (u8 \<times> u8 \<times> u8 \<times> u8)" where
  "rd4 data k =
     (case rd2 data k of
        Inl e \<Rightarrow> Inl e
      | Inr (b0, b1) \<Rightarrow>
          (case rd2 data (k + 2) of Inl e \<Rightarrow> Inl e | Inr (b2, b3) \<Rightarrow> Inr (b0, b1, b2, b3)))"

definition le16_to_cpup :: "u8 list \<Rightarrow> nat \<Rightarrow> mem_error + u16" where
  "le16_to_cpup data k =
     (case rd2 data k of
        Inl e \<Rightarrow> Inl e
      | Inr (b0, b1) \<Rightarrow> Inr (ucast b0 OR push_bit 8 (ucast b1)))"

definition be16_to_cpup :: "u8 list \<Rightarrow> nat \<Rightarrow> mem_error + u16" where
  "be16_to_cpup data k =
     (case rd2 data k of
        Inl e \<Rightarrow> Inl e
      | Inr (b0, b1) \<Rightarrow> Inr (push_bit 8 (ucast b0) OR ucast b1))"

definition le32_to_cpup :: "u8 list \<Rightarrow> nat \<Rightarrow> mem_error + u32" where
  "le32_to_cpup data k =
     (case rd4 data k of
        Inl e \<Rightarrow> Inl e
      | Inr (b0, b1, b2, b3) \<Rightarrow>
          Inr (ucast b0 OR push_bit 8 (ucast b1) OR push_bit 16 (ucast b2)
               OR push_bit 24 (ucast b3)))"

definition be32_to_cpup :: "u8 list \<Rightarrow> nat \<Rightarrow> mem_error + u32" where
  "be32_to_cpup data k =
     (case rd4 data k of
        Inl e \<Rightarrow> Inl e
      | Inr (b0, b1, b2, b3) \<Rightarrow>
          Inr (push_bit 24 (ucast b0) OR push_bit 16 (ucast b1) OR push_bit 8 (ucast b2)
               OR ucast b3))"

text \<open>
  The stride loops \<^verbatim>\<open>for (i = 0; i < size; i += 2)\<close> and \<^verbatim>\<open>i += 4\<close>. The \<^verbatim>\<open>u32\<close>
  counter can wrap around below \<open>sz\<close> (for an \<open>sz\<close> within a stride of \<open>2\<^sup>3\<^sup>2\<close> that is no
  multiple of the stride, on a buffer of at least \<open>2\<^sup>3\<^sup>2\<close> bytes) and the loop then
  never ends, so the loops are partial: \<open>None\<close> is a loop that never returns,
  \<open>Some (Inl OutOfBounds)\<close> a read outside the buffer, \<open>Some (Inr c)\<close> the checksum.
\<close>

partial_function (option) checksum_le16_loop ::
  "u8 list \<Rightarrow> u32 \<Rightarrow> u32 \<Rightarrow> u16 \<Rightarrow> (mem_error + u16) option" where
  "checksum_le16_loop data sz i checksum =
     (if i < sz then
        (case le16_to_cpup data (unat i) of
           Inl e \<Rightarrow> Some (Inl e)
         | Inr v \<Rightarrow> checksum_le16_loop data sz (i + 2) (checksum + v))
      else Some (Inr checksum))"

declare checksum_le16_loop.simps [code]

definition checksum_le16 :: "u8 list \<Rightarrow> u32 \<Rightarrow> (mem_error + u16) option" where
  "checksum_le16 data sz = checksum_le16_loop data sz 0 0"

partial_function (option) checksum_be16_loop ::
  "u8 list \<Rightarrow> u32 \<Rightarrow> u32 \<Rightarrow> u16 \<Rightarrow> (mem_error + u16) option" where
  "checksum_be16_loop data sz i checksum =
     (if i < sz then
        (case be16_to_cpup data (unat i) of
           Inl e \<Rightarrow> Some (Inl e)
         | Inr v \<Rightarrow> checksum_be16_loop data sz (i + 2) (checksum + v))
      else Some (Inr checksum))"

declare checksum_be16_loop.simps [code]

definition checksum_be16 :: "u8 list \<Rightarrow> u32 \<Rightarrow> (mem_error + u16) option" where
  "checksum_be16 data sz = checksum_be16_loop data sz 0 0"

partial_function (option) checksum_le32_loop ::
  "u8 list \<Rightarrow> u32 \<Rightarrow> u32 \<Rightarrow> u32 \<Rightarrow> (mem_error + u32) option" where
  "checksum_le32_loop data sz i checksum =
     (if i < sz then
        (case le32_to_cpup data (unat i) of
           Inl e \<Rightarrow> Some (Inl e)
         | Inr v \<Rightarrow> checksum_le32_loop data sz (i + 4) (checksum + v))
      else Some (Inr checksum))"

declare checksum_le32_loop.simps [code]

definition checksum_le32 :: "u8 list \<Rightarrow> u32 \<Rightarrow> (mem_error + u32) option" where
  "checksum_le32 data sz = checksum_le32_loop data sz 0 0"

partial_function (option) checksum_be32_loop ::
  "u8 list \<Rightarrow> u32 \<Rightarrow> u32 \<Rightarrow> u32 \<Rightarrow> (mem_error + u32) option" where
  "checksum_be32_loop data sz i checksum =
     (if i < sz then
        (case be32_to_cpup data (unat i) of
           Inl e \<Rightarrow> Some (Inl e)
         | Inr v \<Rightarrow> checksum_be32_loop data sz (i + 4) (checksum + v))
      else Some (Inr checksum))"

declare checksum_be32_loop.simps [code]

definition checksum_be32 :: "u8 list \<Rightarrow> u32 \<Rightarrow> (mem_error + u32) option" where
  "checksum_be32 data sz = checksum_be32_loop data sz 0 0"

subsection \<open>Register maps\<close>

text \<open>
  \<^verbatim>\<open>struct goodix_ts_regs\<close> and its two static instances, with the values of the header.
\<close>

record goodix_ts_regs =
  version_base :: u16
  version_len :: u8
  pid :: u16
  pid_len :: u8
  vid :: u16
  vid_len :: u8
  sensor_id :: u16
  sensor_id_mask :: u8
  cfg_addr :: u16
  esd :: u16
  command :: u16
  coor :: u16
  fw_request :: u16
  proximity :: u16

definition goodix_ts_regs_normandy :: goodix_ts_regs where
  "goodix_ts_regs_normandy =
     \<lparr>version_base = 17708, version_len = 72, pid = 17717, pid_len = 4, vid = 17725,
      vid_len = 4, sensor_id = 17729, sensor_id_mask = 15, cfg_addr = 28536, esd = 12531,
      command = 28520, coor = 16640, fw_request = 0, proximity = 0\<rparr>"

definition goodix_ts_regs_yellowstone :: goodix_ts_regs where
  "goodix_ts_regs_yellowstone =
     \<lparr>version_base = 16404, version_len = 135, pid = 16418, pid_len = 4, vid = 16426,
      vid_len = 4, sensor_id = 16431, sensor_id_mask = 15, cfg_addr = 38648, esd = 16742,
      command = 16736, coor = 16768, fw_request = 16768, proximity = 16770\<rparr>"

text \<open>The address fields of a register map (the \<^verbatim>\<open>u16\<close> members), by name.\<close>

datatype reg_field =
  Version_base | Pid | Vid | Sensor_id | Cfg_addr | Esd | Command | Coor | Fw_request | Proximity

fun reg_addr :: "goodix_ts_regs \<Rightarrow> reg_field \<Rightarrow> u16" where
  "reg_addr regs Version_base = version_base regs"
| "reg_addr regs Pid = pid regs"
| "reg_addr regs Vid = vid regs"
| "reg_addr regs Sensor_id = sensor_id regs"
| "reg_addr regs Cfg_addr = cfg_addr regs"
| "reg_addr regs Esd = esd regs"
| "reg_addr regs Command = command regs"
| "reg_addr regs Coor = coor regs"
| "reg_addr regs Fw_request = fw_request regs"
| "reg_addr regs Proximity = proximity regs"

text \<open>
  Modelled from the spec: the code that consults the register map (the hardware layer) is
  not part of the header. Section 4.2: ``A zero-valued address field signals an
  unsupported feature for that variant; any code path consulting such a field must treat
  zero as capability absent, not as a literal address 0.'' \<open>None\<close> is ``capability
  absent'', \<open>Some a\<close> the bus address to use.
\<close>

definition reg_lookup :: "goodix_ts_regs \<Rightarrow> reg_field \<Rightarrow> u16 option" where
  "reg_lookup regs f = (if reg_addr regs f = 0 then None else Some (reg_addr regs f))"

subsection \<open>Command record\<close>












subsection \<open>Events\<close>

definition GOODIX_MAX_TOUCH :: nat where "GOODIX_MAX_TOUCH = 10"
definition GOODIX_MAX_TP_KEY :: nat where "GOODIX_MAX_TP_KEY = 4"
definition GOODIX_TOUCH_EVENT :: u8 where "GOODIX_TOUCH_EVENT = 0x80"
definition GOODIX_REQUEST_EVENT :: u8 where "GOODIX_REQUEST_EVENT = 0x40"

text \<open>\<^verbatim>\<open>enum ts_event_type\<close>, a bit mask.\<close>

definition EVENT_INVALID :: u32 where "EVENT_INVALID = 0"
definition EVENT_TOUCH :: u32 where "EVENT_TOUCH = push_bit 0 1"
definition EVENT_PEN :: u32 where "EVENT_PEN = push_bit 1 1"
definition EVENT_REQUEST :: u32 where "EVENT_REQUEST = push_bit 2 1"

datatype touch_point_status = TS_NONE | TS_RELEASE | TS_TOUCH

text \<open>
  \<^verbatim>\<open>struct goodix_ts_coords\<close>, \<^verbatim>\<open>struct goodix_ts_key\<close>, \<^verbatim>\<open>struct goodix_touch_data\<close> and
  \<^verbatim>\<open>struct goodix_ts_event\<close>. Members that several structs name alike carry the struct as
  a prefix. The arrays \<^verbatim>\<open>coords[GOODIX_MAX_TOUCH]\<close> and \<^verbatim>\<open>keys[GOODIX_MAX_TP_KEY]\<close> are lists
  of that length. The pen data of an event is left out.
\<close>

record goodix_ts_coords =
  coords_status :: touch_point_status
  coords_x :: u32
  coords_y :: u32
  coords_w :: u32
  coords_p :: u32

record goodix_ts_key =
  key_status :: int
  key_code :: int

record goodix_touch_data =
  touch_num :: int
  coords :: "goodix_ts_coords list"
  keys :: "goodix_ts_key list"

record goodix_ts_event =
  event_type :: u32
  touch_data :: goodix_touch_data

definition no_coords :: goodix_ts_coords where
  "no_coords = \<lparr>coords_status = TS_NONE, coords_x = 0, coords_y = 0, coords_w = 0, coords_p = 0\<rparr>"

definition no_key :: goodix_ts_key where
  "no_key = \<lparr>key_status = 0, key_code = 0\<rparr>"

definition no_touch_data :: goodix_touch_data where
  "no_touch_data =
     \<lparr>touch_num = 0, coords = replicate GOODIX_MAX_TOUCH no_coords,
      keys = replicate GOODIX_MAX_TP_KEY no_key\<rparr>"

text \<open>
  Modelled from the spec: the event decoder is the \<^verbatim>\<open>event_handler\<close> function pointer of
  \<^verbatim>\<open>struct goodix_ts_hw_ops\<close>; its code is not part of the header. Section 4.3:
  ``1. Interpret bits of the status byte as an event-type bitmask (Touch=0x80,
  Request=0x40). 2. If Touch is set, read touch-count; reject (treat as decode failure, do
  not proceed) if count > 10. For each point, read status + coordinates in the order and
  width mandated by the selected variant's payload layout. 4. Validate the whole payload
  with the variant-selected checksum. 5. On checksum mismatch: discard the event
  entirely, report a checksum failure to the caller. On success, return the populated
  TouchEvent.'' Step 3, the pen data, is left out. The payload layout of the variant
  (where the touch count and the points sit, which checksum is used) is a parameter,
  \<open>payload_layout\<close>.
\<close>

record payload_layout =
  touch_count_of :: "u8 list \<Rightarrow> nat"
  point_of :: "u8 list \<Rightarrow> nat \<Rightarrow> goodix_ts_coords"
  checksum_ok :: "u8 list \<Rightarrow> bool"

datatype decode_result = Decoded goodix_ts_event | Decode_failure | Checksum_failure | Fault mem_error

text \<open>
  Modelled from the spec: ``For each point, read status + coordinates'': the points with
  the given indices are stored into the coordinate array, in order. Every access to the
  array is recorded with its index; an index outside the array is a fault, and ends the
  decoding.
\<close>

fun store_points ::
  "payload_layout \<Rightarrow> u8 list \<Rightarrow> nat list \<Rightarrow> goodix_ts_coords list \<Rightarrow> nat list
     \<Rightarrow> nat list \<times> (mem_error + goodix_ts_coords list)" where
  "store_points L payload [] cs accesses = (accesses, Inr cs)"
| "store_points L payload (i # idxs) cs accesses =
     (if i < length cs
      then store_points L payload idxs (cs[i := point_of L payload i]) (accesses @ [i])
      else (accesses @ [i], Inl OutOfBounds))"

text \<open>
  Modelled from the spec: ``Interpret bits of the status byte as an event-type bitmask
  (Touch=0x80, Request=0x40)'', with the masks and the event types of the header.
\<close>

definition event_bits :: "u8 \<Rightarrow> u32" where
  "event_bits status =
     (if status AND GOODIX_TOUCH_EVENT \<noteq> 0 then EVENT_TOUCH else EVENT_INVALID)
     OR (if status AND GOODIX_REQUEST_EVENT \<noteq> 0 then EVENT_REQUEST else EVENT_INVALID)"

text \<open>
  Modelled from the spec: the decoder, steps 1, 2, 4 and 5 of section 4.3 as quoted
  above. It returns the indices of the coordinate array it has accessed, in order, and
  the outcome.
\<close>

definition decode_event :: "payload_layout \<Rightarrow> u8 \<Rightarrow> u8 list \<Rightarrow> nat list \<times> decode_result" where
  "decode_event L status payload =
     (if status AND GOODIX_TOUCH_EVENT \<noteq> 0 then
        (if GOODIX_MAX_TOUCH < touch_count_of L payload then ([], Decode_failure)
         else
           (case store_points L payload [0..<touch_count_of L payload]
                   (coords no_touch_data) [] of
              (accesses, Inl e) \<Rightarrow> (accesses, Fault e)
            | (accesses, Inr cs) \<Rightarrow>
                (if checksum_ok L payload
                 then (accesses,
                       Decoded \<lparr>event_type = event_bits status,
                                touch_data = no_touch_data
                                  \<lparr>touch_num := int (touch_count_of L payload), coords := cs\<rparr>\<rparr>)
                 else (accesses, Checksum_failure))))
      else
        (if checksum_ok L payload
         then ([], Decoded \<lparr>event_type = event_bits status, touch_data = no_touch_data\<rparr>)
         else ([], Checksum_failure)))"

subsection \<open>Core controller\<close>

text \<open>
  Of \<^verbatim>\<open>struct goodix_ts_core\<close>: the flags \<^verbatim>\<open>power_on\<close> (an \<^verbatim>\<open>int\<close>), \<^verbatim>\<open>irq_enabled\<close> and
  \<^verbatim>\<open>suspended\<close> (both \<^verbatim>\<open>atomic_t\<close>), as truth values.
\<close>

record goodix_ts_core =
  power_on :: bool
  irq_enabled :: bool
  suspended :: bool

text \<open>
  Modelled from the spec: the state of the controller and of its collaborators (sections
  3 and 4.5). Besides the three flags: the requests made to the interrupt controller and
  to the regulator, in order; whether the handler is installed; whether the periodic
  task of the ESD watchdog is scheduled; the pin state; the calls of the hardware layer.
\<close>

datatype irq_request = Enable_irq | Disable_irq
datatype regulator_request = Regulator_enable | Regulator_disable
datatype pin_state = Pins_active | Pins_suspend
datatype hw_call = Hw_suspend | Hw_resume

record ts_system = goodix_ts_core +
  irq_installed :: bool
  irq_requests :: "irq_request list"
  regulator_requests :: "regulator_request list"
  esd_scheduled :: bool
  pins :: pin_state
  hw_calls :: "hw_call list"

text \<open>
  Modelled from the spec: the initial state, ``uninitialized'': no flag set, nothing
  requested.
\<close>

definition ts_initial :: ts_system where
  "ts_initial =
     \<lparr>power_on = False, irq_enabled = False, suspended = False, irq_installed = False,
      irq_requests = [], regulator_requests = [], esd_scheduled = False, pins = Pins_active,
      hw_calls = []\<rparr>"

text \<open>
  Modelled from the spec: \<^verbatim>\<open>goodix_ts_irq_enable\<close>, which the header only declares
  (``return: 0 ok, <0 failed''). Section 4.5: ``irq_enable(flag): atomic transition of the
  interrupt-enabled flag; enabling when already enabled (or disabling when already
  disabled) is a no-op success and must not double-count at the interrupt controller''.
  A transition of the flag makes one request to the interrupt controller; the call
  returns the status and the new state.
\<close>

definition goodix_ts_irq_enable :: "ts_system \<Rightarrow> bool \<Rightarrow> int \<times> ts_system" where
  "goodix_ts_irq_enable s enable =
     (if irq_enabled s = enable then (0, s)
      else (0, s\<lparr>irq_enabled := enable,
                  irq_requests :=
                    irq_requests s @ [if enable then Enable_irq else Disable_irq]\<rparr>))"

section \<open>Properties of the checksum helpers\<close>

lemma u32_succ_unat: "(i::u32) < n \<Longrightarrow> unat (i + 1) = Suc (unat i)"
  by unat_arith

text \<open>The loop of \<^verbatim>\<open>checksum_u8\<close> adds the bytes from \<open>i\<close> up to \<open>sz\<close> to its accumulator.\<close>

lemma checksum_u8_loop_sum:
  "unat sz \<le> length data \<Longrightarrow> i \<le> sz \<Longrightarrow>
   checksum_u8_loop data sz i c = Inr (c + sum_list (drop (unat i) (take (unat sz) data)))"
proof (induction data sz i c rule: checksum_u8_loop.induct)
  case (1 data sz i c)
  show ?case
  proof (cases "i < sz")
    case False
    with "1.prems" have "i = sz" by simp
    then show ?thesis
      by (simp add: checksum_u8_loop.simps [of data sz sz])
  next
    case True
    then have lt: "unat i < unat sz" and suc: "unat (i + 1) = Suc (unat i)"
      by (simp_all add: u32_succ_unat word_less_nat_alt)
    from lt "1.prems" have r: "rd data (unat i) = Inr (data ! unat i)"
      by (simp add: rd_def)
    from True have le: "i + 1 \<le> sz" by (simp add: inc_le)
    from lt "1.prems" have
      d: "drop (unat i) (take (unat sz) data) = data ! unat i # drop (Suc (unat i)) (take (unat sz) data)"
      by (simp add: Cons_nth_drop_Suc [symmetric])
    have "checksum_u8_loop data sz i c = checksum_u8_loop data sz (i + 1) (c + data ! unat i)"
      using True r by (simp add: checksum_u8_loop.simps [of data sz i])
    also have "\<dots> = Inr (c + data ! unat i + sum_list (drop (unat (i + 1)) (take (unat sz) data)))"
      using "1.IH" [OF True r "1.prems"(1) le] .
    finally show ?thesis
      by (simp add: d suc add.assoc)
  qed
qed

lemma unat_sum_list_u8:
  "unat (sum_list (ws :: u8 list)) = sum_list (map unat ws) mod 256"
  by (induction ws) (simp_all add: unat_word_ariths mod_add_right_eq)

lemma checksum_u8_whole:
  "unat sz \<le> length data \<Longrightarrow> checksum_u8 data sz = Inr (sum_list (take (unat sz) data))"
  by (simp add: checksum_u8_def checksum_u8_loop_sum)

lemma checksum_u8_all:
  assumes "length xs < 2 ^ 32"
  shows "checksum_u8 xs (of_nat (length xs)) = Inr (sum_list xs)"
proof -
  from assms have "unat (of_nat (length xs) :: u32) = length xs"
    by (simp add: unat_of_nat)
  then show ?thesis by (simp add: checksum_u8_whole)
qed

text \<open>
  Claim C2. For a buffer holding at least \<open>sz\<close> bytes, \<^verbatim>\<open>checksum_u8\<close> returns the sum
  of the first \<open>sz\<close> bytes modulo 256, and for every way of grouping these bytes into
  two consecutive parts it is the sum modulo 256 of the checksums of the parts.
\<close>

theorem checksum_u8_additive_fold:
  assumes "unat sz \<le> length data"
  shows "\<exists>c. checksum_u8 data sz = Inr c
           \<and> unat c = sum_list (map unat (take (unat sz) data)) mod 256
           \<and> (\<forall>xs ys. take (unat sz) data = xs @ ys \<longrightarrow>
                (\<exists>cx cy. checksum_u8 xs (of_nat (length xs)) = Inr cx
                   \<and> checksum_u8 ys (of_nat (length ys)) = Inr cy
                   \<and> unat c = (unat cx + unat cy) mod 256))"
proof (intro exI conjI allI impI)
  show "checksum_u8 data sz = Inr (sum_list (take (unat sz) data))"
    using assms by (rule checksum_u8_whole)
  show "unat (sum_list (take (unat sz) data)) = sum_list (map unat (take (unat sz) data)) mod 256"
    by (rule unat_sum_list_u8)
next
  fix xs ys :: "u8 list"
  assume split: "take (unat sz) data = xs @ ys"
  have "length (xs @ ys) \<le> unat sz"
    unfolding split [symmetric] by simp
  moreover have "unat sz < 2 ^ 32"
    using unsigned_less [of sz] by simp
  ultimately have lx: "length xs < 2 ^ 32" and ly: "length ys < 2 ^ 32"
    by simp_all
  show "checksum_u8 xs (of_nat (length xs)) = Inr (sum_list xs)"
    using lx by (rule checksum_u8_all)
  show "checksum_u8 ys (of_nat (length ys)) = Inr (sum_list ys)"
    using ly by (rule checksum_u8_all)
  show "unat (sum_list (take (unat sz) data)) = (unat (sum_list xs) + unat (sum_list ys)) mod 256"
    by (simp add: split unat_word_ariths)
qed

theorem checksum_u8_additive_fold_witness:
  "unat (3 :: u32) \<le> length [1, 2, 255 :: u8]
   \<and> checksum_u8 [1, 2, 255] 3 = Inr 2
   \<and> checksum_u8 [1] 1 = Inr 1 \<and> checksum_u8 [2, 255] 2 = Inr 1"
  using checksum_u8_additive_fold [of 3 "[1, 2, 255]"]
  by (simp add: checksum_u8_def checksum_u8_loop.simps rd_def)

text \<open>
  The trailing field of \<^verbatim>\<open>checksum_u8_ys\<close>: the two bytes do not overlap, so the bitwise
  \<^verbatim>\<open>|\<close> adds them.
\<close>

lemma be16_or_add: "push_bit 8 (uint (hi :: u8)) OR uint (lo :: u8) = uint hi * 256 + uint lo"
proof -
  have "push_bit 8 (uint hi) + uint lo = push_bit 8 (uint hi) OR uint lo"
    by (rule disjunctive_add) (auto simp: bit_push_bit_iff bit_uint_iff)
  then show ?thesis
    by (simp add: push_bit_eq_mult)
qed

lemma u32_lt2: "(sz :: u32) < 2 \<Longrightarrow> sz = 0 \<or> sz = 1"
proof -
  assume "sz < 2"
  then have "unat sz < 2" by (simp add: word_less_nat_alt)
  then have "unat sz = unat (0 :: u32) \<or> unat sz = unat (1 :: u32)" by auto
  then show ?thesis by (simp only: word_unat_eq_iff)
qed

lemma u32_sub2: "(2 :: u32) \<le> sz \<Longrightarrow> unat (sz - 2) = unat sz - 2"
  by unat_arith

lemma u32_sub1: "(2 :: u32) \<le> sz \<Longrightarrow> unat (sz - 1) = unat sz - 1"
  by unat_arith

lemma unat_sum_list_ucast:
  "unat (sum_list (map ucast (bs :: u8 list)) :: u16) = sum_list (map unat bs) mod 65536"
  by (induction bs)
    (simp_all add: unat_word_ariths mod_add_right_eq unsigned_ucast_eq take_bit_eq_mod
      mod_add_left_eq)

lemma checksum_u8_ys_loop_sum:
  "2 \<le> sz \<Longrightarrow> unat sz \<le> length data \<Longrightarrow> i \<le> sz - 2 \<Longrightarrow>
   checksum_u8_ys_loop data sz i c
     = Inr (c + sum_list (map ucast (drop (unat i) (take (unat sz - 2) data))))"
proof (induction data sz i c rule: checksum_u8_ys_loop.induct)
  case (1 data sz i c)
  note n2 = u32_sub2 [OF "1.prems"(1)]
  show ?case
  proof (cases "i < sz - 2")
    case False
    with "1.prems" have "i = sz - 2" by simp
    then show ?thesis
      by (simp add: checksum_u8_ys_loop.simps [of data sz "sz - 2"] n2)
  next
    case True
    then have lt: "unat i < unat sz - 2"
      by (simp add: word_less_nat_alt n2)
    from True have suc: "unat (i + 1) = Suc (unat i)"
      by (rule u32_succ_unat)
    from lt "1.prems" have r: "rd data (unat i) = Inr (data ! unat i)"
      by (simp add: rd_def)
    from True have le: "i + 1 \<le> sz - 2" by (simp add: inc_le)
    from lt "1.prems" have
      d: "drop (unat i) (take (unat sz - 2) data)
            = data ! unat i # drop (Suc (unat i)) (take (unat sz - 2) data)"
      by (simp add: Cons_nth_drop_Suc [symmetric])
    have "checksum_u8_ys_loop data sz i c
            = checksum_u8_ys_loop data sz (i + 1) (c + ucast (data ! unat i))"
      using True r by (simp add: checksum_u8_ys_loop.simps [of data sz i])
    also have "\<dots> = Inr (c + ucast (data ! unat i)
                 + sum_list (map ucast (drop (unat (i + 1)) (take (unat sz - 2) data))))"
      using "1.IH" [OF True r "1.prems"(1) "1.prems"(2) le] .
    finally show ?thesis
      by (simp add: d suc add.assoc)
  qed
qed

lemma checksum_u8_ys_value:
  assumes "2 \<le> sz" and "unat sz \<le> length data"
  shows "checksum_u8_ys data sz
    = Inr (word_of_int
        (uint (sum_list (map ucast (take (unat sz - 2) data)) :: u16)
          - (uint (data ! (unat sz - 2)) * 256 + uint (data ! (unat sz - 1)))))"
proof -
  from assms(1) have "2 \<le> unat sz" by (simp add: word_le_nat_alt)
  with assms(2) have "unat sz - 2 < length data" and "unat sz - 1 < length data"
    by simp_all
  then show ?thesis
    using assms
    by (simp add: checksum_u8_ys_def checksum_u8_ys_loop_sum u32_sub2 u32_sub1 rd_def be16_or_add)
qed

lemma checksum_u8_ys_short:
  assumes "sz < 2" and "length data = unat sz"
  shows "checksum_u8_ys data sz = Inl OutOfBounds"
proof -
  from assms(1) consider "sz = 0" | "sz = 1" using u32_lt2 by blast
  then show ?thesis
  proof cases
    case 1
    with assms(2) have "data = []" by simp
    with 1 show ?thesis
      by (simp add: checksum_u8_ys_def checksum_u8_ys_loop.simps [of _ _ 0] rd_def)
  next
    case 2
    with assms(2) obtain b where "data = [b]"
      by (cases data) simp_all
    have m: "(1 :: u32) - 2 = 4294967295" by simp
    have "checksum_u8_ys_loop [b] 1 1 (ucast b) = Inl OutOfBounds"
      unfolding checksum_u8_ys_loop.simps [of _ _ 1] m by (simp add: rd_def)
    then have "checksum_u8_ys_loop [b] 1 0 0 = Inl OutOfBounds"
      unfolding checksum_u8_ys_loop.simps [of _ _ 0] m by (simp add: rd_def)
    with 2 \<open>data = [b]\<close> show ?thesis
      by (simp add: checksum_u8_ys_def)
  qed
qed

text \<open>
  Claim C5. On a buffer that holds at least \<open>sz\<close> bytes, \<^verbatim>\<open>checksum_u8_ys\<close> stays inside
  the buffer and returns a value when \<open>2 \<le> sz\<close>. On a buffer of exactly \<open>sz\<close> bytes with
  \<open>sz < 2\<close>, where the bound \<^verbatim>\<open>size - 2\<close> has wrapped around, it reads outside the
  buffer.
\<close>

theorem checksum_u8_ys_in_bounds_iff:
  assumes "unat sz \<le> length data"
  shows "(2 \<le> sz \<longrightarrow> (\<exists>c. checksum_u8_ys data sz = Inr c))
       \<and> (length data = unat sz \<and> sz < 2 \<longrightarrow> checksum_u8_ys data sz = Inl OutOfBounds)"
  using assms by (simp add: checksum_u8_ys_value checksum_u8_ys_short)

theorem checksum_u8_ys_in_bounds_iff_witness:
  "unat (4 :: u32) \<le> length [1, 2, 0, 3 :: u8] \<and> (2 :: u32) \<le> 4
   \<and> (\<exists>c. checksum_u8_ys [1, 2, 0, 3] 4 = Inr c)
   \<and> length [7 :: u8] = unat (1 :: u32) \<and> (1 :: u32) < 2
   \<and> checksum_u8_ys [7] 1 = Inl OutOfBounds
   \<and> length ([] :: u8 list) = unat (0 :: u32) \<and> (0 :: u32) < 2
   \<and> checksum_u8_ys [] 0 = Inl OutOfBounds"
  using checksum_u8_ys_in_bounds_iff [of 4 "[1, 2, 0, 3]"]
    checksum_u8_ys_in_bounds_iff [of 1 "[7]"] checksum_u8_ys_in_bounds_iff [of 0 "[]"]
  by simp

text \<open>
  Claim C1. For a buffer of size at least 2 whose last two bytes, read as a big-endian
  16-bit number, equal the sum of the preceding \<open>sz - 2\<close> bytes, \<^verbatim>\<open>checksum_u8_ys\<close>
  returns 0. The same holds when the field equals that sum reduced modulo \<open>2\<^sup>1\<^sup>6\<close>.
\<close>

theorem checksum_u8_ys_zero:
  assumes "2 \<le> sz" and "unat sz \<le> length data"
  shows "(unat (data ! (unat sz - 2)) * 256 + unat (data ! (unat sz - 1))
            = sum_list (map unat (take (unat sz - 2) data))
          \<longrightarrow> checksum_u8_ys data sz = Inr 0)
       \<and> (unat (data ! (unat sz - 2)) * 256 + unat (data ! (unat sz - 1))
            = sum_list (map unat (take (unat sz - 2) data)) mod 65536
          \<longrightarrow> checksum_u8_ys data sz = Inr 0)"
proof -
  let ?hi = "data ! (unat sz - 2)" and ?lo = "data ! (unat sz - 1)"
  let ?S = "sum_list (map unat (take (unat sz - 2) data))"
  let ?cs = "sum_list (map ucast (take (unat sz - 2) data)) :: u16"
  have field: "unat ?hi * 256 + unat ?lo < 65536"
  proof -
    have "unat ?hi < 256" and "unat ?lo < 256"
      using unsigned_less [of ?hi, where 'a = nat] unsigned_less [of ?lo, where 'a = nat]
      by simp_all
    then show ?thesis by simp
  qed
  have modcase: "checksum_u8_ys data sz = Inr 0" if eq: "unat ?hi * 256 + unat ?lo = ?S mod 65536"
  proof -
    have "unat ?cs = unat ?hi * 256 + unat ?lo"
      by (simp only: unat_sum_list_ucast eq [symmetric])
    then have "int (unat ?cs) = int (unat ?hi * 256 + unat ?lo)"
      by (rule arg_cong)
    then have "uint ?cs = uint ?hi * 256 + uint ?lo"
      by simp
    then show ?thesis
      by (simp add: checksum_u8_ys_value [OF assms])
  qed
  moreover have "checksum_u8_ys data sz = Inr 0" if eq: "unat ?hi * 256 + unat ?lo = ?S"
  proof -
    from field eq have "?S mod 65536 = ?S" by simp
    with eq show ?thesis by (simp add: modcase)
  qed
  ultimately show ?thesis by blast
qed

theorem checksum_u8_ys_zero_witness:
  "(2 :: u32) \<le> 4 \<and> unat (4 :: u32) \<le> length [1, 2, 0, 3 :: u8]
   \<and> unat ([1, 2, 0, 3 :: u8] ! 2) * 256 + unat ([1, 2, 0, 3 :: u8] ! 3)
       = sum_list (map unat (take 2 [1, 2, 0, 3 :: u8]))
   \<and> checksum_u8_ys [1, 2, 0, 3] 4 = Inr 0"
  using checksum_u8_ys_zero [of 4 "[1, 2, 0, 3]"]
  by simp

lemma rd2_in_bounds: "k + 1 < length data \<Longrightarrow> \<exists>p. rd2 data k = Inr p"
  by (simp add: rd2_def rd_def)

lemma rd2_out_of_bounds: "length data \<le> k + 1 \<Longrightarrow> rd2 data k = Inl OutOfBounds"
  by (simp add: rd2_def rd_def split: sum.splits)

lemma rd4_in_bounds: "k + 3 < length data \<Longrightarrow> \<exists>p. rd4 data k = Inr p"
  by (simp add: rd4_def rd2_def rd_def)

lemma rd4_out_of_bounds: "length data \<le> k + 3 \<Longrightarrow> rd4 data k = Inl OutOfBounds"
  by (auto simp add: rd4_def rd2_def rd_def split: sum.splits)

text \<open>
  The four stride loops have one shape: a loop over a reader \<open>rdk\<close> of \<open>k\<close> bytes. When
  the reader succeeds wherever \<open>k\<close> bytes fit below \<open>sz\<close>, the loop returns for an \<open>sz\<close> that
  \<open>k\<close> divides. When moreover the buffer ends at \<open>sz\<close> (\<open>exact\<close>), so that the reader
  fails wherever \<open>k\<close> bytes do not fit, the loop reads out of bounds for every other
  \<open>sz\<close>.
\<close>

lemma stride_loop_bounds:
  fixes loop :: "u32 \<Rightarrow> 'c \<Rightarrow> (mem_error + 'c) option"
    and rdk :: "nat \<Rightarrow> mem_error + 'v" and step :: "'c \<Rightarrow> 'v \<Rightarrow> 'c"
    and sz k :: u32
  assumes unfold: "\<And>i c. loop i c =
      (if i < sz then
         (case rdk (unat i) of Inl e \<Rightarrow> Some (Inl e) | Inr v \<Rightarrow> loop (i + k) (step c v))
       else Some (Inr c))"
    and inb: "\<And>j. j + unat k \<le> unat sz \<Longrightarrow> \<exists>v. rdk j = Inr v"
    and oob: "\<And>j. exact \<Longrightarrow> unat sz < j + unat k \<Longrightarrow> rdk j = Inl OutOfBounds"
    and kpos: "0 < unat k"
  shows "unat k dvd unat i \<Longrightarrow> unat i \<le> unat sz \<Longrightarrow>
         (unat k dvd unat sz \<longrightarrow> (\<exists>v. loop i c = Some (Inr v)))
       \<and> (exact \<and> \<not> unat k dvd unat sz \<longrightarrow> loop i c = Some (Inl OutOfBounds))"
proof (induction "unat sz - unat i" arbitrary: i c rule: less_induct)
  case less
  show ?case
  proof (cases "i < sz")
    case False
    with less.prems have "unat i = unat sz"
      by (simp add: word_less_nat_alt)
    with less.prems False show ?thesis
      by (simp add: unfold [of i c])
  next
    case True
    then have lt: "unat i < unat sz" by (simp add: word_less_nat_alt)
    show ?thesis
    proof (cases "unat i + unat k \<le> unat sz")
      case fits: True
      then obtain v where v: "rdk (unat i) = Inr v" using inb by blast
      have "unat sz < 2 ^ 32" using unsigned_less [of sz, where 'a = nat] by simp
      with fits have "unat i + unat k < 2 ^ LENGTH(32)" by simp
      then have next_i: "unat (i + k) = unat i + unat k"
        by (simp only: unat_add_lem)
      with kpos lt fits have "unat sz - unat (i + k) < unat sz - unat i"
        and "unat k dvd unat (i + k)" and "unat (i + k) \<le> unat sz"
        using less.prems by simp_all
      from less.hyps [OF this, of "step c v"]
      show ?thesis using True v by (simp add: unfold [of i c])
    next
      case past: False
      then have "exact \<Longrightarrow> rdk (unat i) = Inl OutOfBounds" using oob by simp
      then have r: "exact \<Longrightarrow> loop i c = Some (Inl OutOfBounds)"
        using True by (simp add: unfold [of i c])
      define r where "r = unat sz - unat i"
      with past lt have rr: "unat sz = unat i + r" "0 < r" "r < unat k"
        by simp_all
      then have "\<not> unat k dvd r" by (simp add: nat_dvd_not_less)
      with less.prems(1) rr(1) have "\<not> unat k dvd unat sz"
        by (simp add: dvd_add_right_iff)
      with r show ?thesis by simp
    qed
  qed
qed

lemma le16_to_cpup_in_bounds: "k + 2 \<le> length data \<Longrightarrow> \<exists>v. le16_to_cpup data k = Inr v"
  using rd2_in_bounds [of k data] by (auto simp: le16_to_cpup_def)

lemma le16_to_cpup_out_of_bounds:
  "length data < k + 2 \<Longrightarrow> le16_to_cpup data k = Inl OutOfBounds"
  by (simp add: le16_to_cpup_def rd2_out_of_bounds)

lemma be16_to_cpup_in_bounds: "k + 2 \<le> length data \<Longrightarrow> \<exists>v. be16_to_cpup data k = Inr v"
  using rd2_in_bounds [of k data] by (auto simp: be16_to_cpup_def)

lemma be16_to_cpup_out_of_bounds:
  "length data < k + 2 \<Longrightarrow> be16_to_cpup data k = Inl OutOfBounds"
  by (simp add: be16_to_cpup_def rd2_out_of_bounds)

lemma le32_to_cpup_in_bounds: "k + 4 \<le> length data \<Longrightarrow> \<exists>v. le32_to_cpup data k = Inr v"
  using rd4_in_bounds [of k data] by (auto simp: le32_to_cpup_def)

lemma le32_to_cpup_out_of_bounds:
  "length data < k + 4 \<Longrightarrow> le32_to_cpup data k = Inl OutOfBounds"
  by (simp add: le32_to_cpup_def rd4_out_of_bounds)

lemma be32_to_cpup_in_bounds: "k + 4 \<le> length data \<Longrightarrow> \<exists>v. be32_to_cpup data k = Inr v"
  using rd4_in_bounds [of k data] by (auto simp: be32_to_cpup_def)

lemma be32_to_cpup_out_of_bounds:
  "length data < k + 4 \<Longrightarrow> be32_to_cpup data k = Inl OutOfBounds"
  by (simp add: be32_to_cpup_def rd4_out_of_bounds)

lemma checksum_le16_bounds:
  assumes "unat sz \<le> length data"
  shows "(2 dvd unat sz \<longrightarrow> (\<exists>v. checksum_le16 data sz = Some (Inr v)))
       \<and> (length data = unat sz \<and> \<not> 2 dvd unat sz
            \<longrightarrow> checksum_le16 data sz = Some (Inl OutOfBounds))"
  unfolding checksum_le16_def
  using assms stride_loop_bounds [where loop = "checksum_le16_loop data sz" and sz = sz and k = 2
      and rdk = "le16_to_cpup data" and step = "(+)" and i = 0 and c = 0
      and exact = "length data = unat sz"]
  by (simp add: checksum_le16_loop.simps [of data sz] le16_to_cpup_in_bounds
      le16_to_cpup_out_of_bounds)

lemma checksum_be16_bounds:
  assumes "unat sz \<le> length data"
  shows "(2 dvd unat sz \<longrightarrow> (\<exists>v. checksum_be16 data sz = Some (Inr v)))
       \<and> (length data = unat sz \<and> \<not> 2 dvd unat sz
            \<longrightarrow> checksum_be16 data sz = Some (Inl OutOfBounds))"
  unfolding checksum_be16_def
  using assms stride_loop_bounds [where loop = "checksum_be16_loop data sz" and sz = sz and k = 2
      and rdk = "be16_to_cpup data" and step = "(+)" and i = 0 and c = 0
      and exact = "length data = unat sz"]
  by (simp add: checksum_be16_loop.simps [of data sz] be16_to_cpup_in_bounds
      be16_to_cpup_out_of_bounds)

lemma checksum_le32_bounds:
  assumes "unat sz \<le> length data"
  shows "(4 dvd unat sz \<longrightarrow> (\<exists>v. checksum_le32 data sz = Some (Inr v)))
       \<and> (length data = unat sz \<and> \<not> 4 dvd unat sz
            \<longrightarrow> checksum_le32 data sz = Some (Inl OutOfBounds))"
  unfolding checksum_le32_def
  using assms stride_loop_bounds [where loop = "checksum_le32_loop data sz" and sz = sz and k = 4
      and rdk = "le32_to_cpup data" and step = "(+)" and i = 0 and c = 0
      and exact = "length data = unat sz"]
  by (simp add: checksum_le32_loop.simps [of data sz] le32_to_cpup_in_bounds
      le32_to_cpup_out_of_bounds)

lemma checksum_be32_bounds:
  assumes "unat sz \<le> length data"
  shows "(4 dvd unat sz \<longrightarrow> (\<exists>v. checksum_be32 data sz = Some (Inr v)))
       \<and> (length data = unat sz \<and> \<not> 4 dvd unat sz
            \<longrightarrow> checksum_be32 data sz = Some (Inl OutOfBounds))"
  unfolding checksum_be32_def
  using assms stride_loop_bounds [where loop = "checksum_be32_loop data sz" and sz = sz and k = 4
      and rdk = "be32_to_cpup data" and step = "(+)" and i = 0 and c = 0
      and exact = "length data = unat sz"]
  by (simp add: checksum_be32_loop.simps [of data sz] be32_to_cpup_in_bounds
      be32_to_cpup_out_of_bounds)

text \<open>
  Claim C6. On a buffer that holds at least \<open>sz\<close> bytes, \<^verbatim>\<open>checksum_le16\<close> and
  \<^verbatim>\<open>checksum_be16\<close> return a value without leaving the buffer when \<open>sz\<close> is a multiple of
  2, and \<^verbatim>\<open>checksum_le32\<close> and \<^verbatim>\<open>checksum_be32\<close> when it is a multiple of 4. On a buffer
  of exactly \<open>sz\<close> bytes they read past its end when \<open>sz\<close> is no such multiple.
\<close>

theorem stride_checksums_in_bounds_iff:
  assumes "unat sz \<le> length data"
  shows "(2 dvd unat sz \<longrightarrow> (\<exists>v. checksum_le16 data sz = Some (Inr v)))
       \<and> (length data = unat sz \<and> \<not> 2 dvd unat sz
            \<longrightarrow> checksum_le16 data sz = Some (Inl OutOfBounds))
       \<and> (2 dvd unat sz \<longrightarrow> (\<exists>v. checksum_be16 data sz = Some (Inr v)))
       \<and> (length data = unat sz \<and> \<not> 2 dvd unat sz
            \<longrightarrow> checksum_be16 data sz = Some (Inl OutOfBounds))
       \<and> (4 dvd unat sz \<longrightarrow> (\<exists>v. checksum_le32 data sz = Some (Inr v)))
       \<and> (length data = unat sz \<and> \<not> 4 dvd unat sz
            \<longrightarrow> checksum_le32 data sz = Some (Inl OutOfBounds))
       \<and> (4 dvd unat sz \<longrightarrow> (\<exists>v. checksum_be32 data sz = Some (Inr v)))
       \<and> (length data = unat sz \<and> \<not> 4 dvd unat sz
            \<longrightarrow> checksum_be32 data sz = Some (Inl OutOfBounds))"
  using checksum_le16_bounds [OF assms] checksum_be16_bounds [OF assms]
    checksum_le32_bounds [OF assms] checksum_be32_bounds [OF assms]
  by blast

theorem stride_checksums_in_bounds_iff_witness:
  "unat (4 :: u32) \<le> length [1, 2, 3, 4 :: u8] \<and> 2 dvd unat (4 :: u32) \<and> 4 dvd unat (4 :: u32)
   \<and> (\<exists>v. checksum_le16 [1, 2, 3, 4] 4 = Some (Inr v))
   \<and> (\<exists>v. checksum_be16 [1, 2, 3, 4] 4 = Some (Inr v))
   \<and> (\<exists>v. checksum_le32 [1, 2, 3, 4] 4 = Some (Inr v))
   \<and> (\<exists>v. checksum_be32 [1, 2, 3, 4] 4 = Some (Inr v))
   \<and> length [1, 2, 3 :: u8] = unat (3 :: u32) \<and> \<not> 2 dvd unat (3 :: u32)
   \<and> \<not> 4 dvd unat (3 :: u32)
   \<and> checksum_le16 [1, 2, 3] 3 = Some (Inl OutOfBounds)
   \<and> checksum_be16 [1, 2, 3] 3 = Some (Inl OutOfBounds)
   \<and> checksum_le32 [1, 2, 3] 3 = Some (Inl OutOfBounds)
   \<and> checksum_be32 [1, 2, 3] 3 = Some (Inl OutOfBounds)"
  using stride_checksums_in_bounds_iff [of 4 "[1, 2, 3, 4]"]
    stride_checksums_in_bounds_iff [of 3 "[1, 2, 3]"]
  by simp

section \<open>Properties of the register maps\<close>

lemma reg_field_UNIV:
  "UNIV = {Version_base, Pid, Vid, Sensor_id, Cfg_addr, Esd, Command, Coor, Fw_request, Proximity}"
  using reg_field.exhaust by auto

lemma normandy_absent:
  "(reg_lookup goodix_ts_regs_normandy f = None) = (f = Fw_request \<or> f = Proximity)"
  by (cases f) (simp_all add: reg_lookup_def goodix_ts_regs_normandy_def)

lemma yellowstone_present:
  "reg_lookup goodix_ts_regs_yellowstone f = Some (reg_addr goodix_ts_regs_yellowstone f)"
  by (cases f) (simp_all add: reg_lookup_def goodix_ts_regs_yellowstone_def)

text \<open>
  Claim C8. In the register map of variant A (normandy) the firmware-request and the
  proximity address are 0; in the map of variant B (yellowstone) both are nonzero.
  Consulting a map answers ``capability absent'' exactly for an address field that is 0,
  and never answers the bus address 0: for normandy exactly these two capabilities are
  absent, for yellowstone none is.
\<close>

theorem zero_address_is_capability_absent:
  "fw_request goodix_ts_regs_normandy = 0 \<and> proximity goodix_ts_regs_normandy = 0
   \<and> fw_request goodix_ts_regs_yellowstone \<noteq> 0 \<and> proximity goodix_ts_regs_yellowstone \<noteq> 0
   \<and> {f. reg_lookup goodix_ts_regs_normandy f = None} = {Fw_request, Proximity}
   \<and> {f. reg_lookup goodix_ts_regs_yellowstone f = None} = {}
   \<and> (\<forall>regs f. (reg_lookup regs f = None) = (reg_addr regs f = 0))
   \<and> (\<forall>regs f. reg_lookup regs f \<noteq> Some 0)"
proof (intro conjI allI)
  show "{f. reg_lookup goodix_ts_regs_normandy f = None} = {Fw_request, Proximity}"
    by (auto simp: normandy_absent)
  show "{f. reg_lookup goodix_ts_regs_yellowstone f = None} = {}"
    by (simp add: yellowstone_present)
qed (simp_all add: goodix_ts_regs_normandy_def goodix_ts_regs_yellowstone_def reg_lookup_def)

theorem zero_address_is_capability_absent_witness:
  "reg_lookup goodix_ts_regs_normandy Fw_request = None
   \<and> reg_lookup goodix_ts_regs_normandy Proximity = None
   \<and> reg_lookup goodix_ts_regs_normandy Esd = Some 12531
   \<and> reg_lookup goodix_ts_regs_yellowstone Fw_request = Some 16768
   \<and> reg_lookup goodix_ts_regs_yellowstone Proximity = Some 16770"
  using zero_address_is_capability_absent
  by (simp add: reg_lookup_def goodix_ts_regs_normandy_def goodix_ts_regs_yellowstone_def)

section \<open>Properties of the interrupt flag\<close>

text \<open>
  Claim C9. \<^verbatim>\<open>goodix_ts_irq_enable\<close> is idempotent in both directions: when the
  interrupt-enabled flag already has the requested value, the call returns 0 and leaves
  the state as it is, the requests made to the interrupt controller included; the second
  of two equal calls in a row is such a call.
\<close>

theorem irq_enable_idempotent:
  "(irq_enabled s = enable \<longrightarrow> goodix_ts_irq_enable s enable = (0, s))
   \<and> goodix_ts_irq_enable (snd (goodix_ts_irq_enable s enable)) enable
       = (0, snd (goodix_ts_irq_enable s enable))
   \<and> irq_enabled (snd (goodix_ts_irq_enable s enable)) = enable"
  by (simp add: goodix_ts_irq_enable_def)

theorem irq_enable_idempotent_witness:
  "irq_enabled (snd (goodix_ts_irq_enable ts_initial True)) = True
   \<and> goodix_ts_irq_enable (snd (goodix_ts_irq_enable ts_initial True)) True
       = (0, snd (goodix_ts_irq_enable ts_initial True))
   \<and> irq_requests (snd (goodix_ts_irq_enable (snd (goodix_ts_irq_enable ts_initial True)) True))
       = [Enable_irq]
   \<and> irq_enabled ts_initial = False
   \<and> goodix_ts_irq_enable ts_initial False = (0, ts_initial)"
  using irq_enable_idempotent [of "snd (goodix_ts_irq_enable ts_initial True)" True]
    irq_enable_idempotent [of ts_initial False]
  by (simp add: goodix_ts_irq_enable_def ts_initial_def)

section \<open>Properties of the event decoder\<close>

text \<open>Storing points at indices inside the array accesses exactly these and does not fault.\<close>

lemma store_points_in_range:
  "\<forall>i \<in> set idxs. i < length cs \<Longrightarrow>
   \<exists>cs'. store_points L payload idxs cs accesses = (accesses @ idxs, Inr cs')"
proof (induction idxs arbitrary: cs accesses)
  case Nil
  then show ?case by simp
next
  case (Cons i idxs)
  from Cons.prems have "\<forall>j \<in> set idxs. j < length (cs[i := point_of L payload i])"
    by simp
  from Cons.IH [OF this, of "accesses @ [i]"] Cons.prems show ?case
    by simp
qed

text \<open>
  Claim C3. When the Touch bit of the status byte is set and the declared touch count
  exceeds \<^verbatim>\<open>GOODIX_MAX_TOUCH\<close>, the decoder reports a decode failure and has accessed no
  element of the coordinate array. On every input, each index it accesses lies inside the
  array, and it does not fault.
\<close>

theorem decode_rejects_excess_touch_count:
  "(status AND GOODIX_TOUCH_EVENT \<noteq> 0 \<and> GOODIX_MAX_TOUCH < touch_count_of L payload
      \<longrightarrow> decode_event L status payload = ([], Decode_failure))
   \<and> (\<forall>i \<in> set (fst (decode_event L status payload)). i < GOODIX_MAX_TOUCH)
   \<and> (\<forall>e. snd (decode_event L status payload) \<noteq> Fault e)"
proof (cases "status AND GOODIX_TOUCH_EVENT \<noteq> 0 \<and> touch_count_of L payload \<le> GOODIX_MAX_TOUCH")
  case False
  then show ?thesis
    by (auto simp: decode_event_def)
next
  case True
  let ?n = "touch_count_of L payload"
  from True have "\<forall>i \<in> set [0..<?n]. i < length (coords no_touch_data)"
    by (simp add: no_touch_data_def)
  from store_points_in_range [OF this, of L payload "[]"]
  obtain cs where "store_points L payload [0..<?n] (coords no_touch_data) [] = ([0..<?n], Inr cs)"
    by auto
  with True show ?thesis
    by (auto simp: decode_event_def)
qed

theorem decode_rejects_excess_touch_count_witness:
  "(0x80 :: u8) AND GOODIX_TOUCH_EVENT \<noteq> 0
   \<and> GOODIX_MAX_TOUCH
       < touch_count_of
           \<lparr>touch_count_of = (\<lambda>p. unat (p ! 0)), point_of = (\<lambda>p i. no_coords),
            checksum_ok = (\<lambda>p. True)\<rparr> [11]
   \<and> decode_event
        \<lparr>touch_count_of = (\<lambda>p. unat (p ! 0)), point_of = (\<lambda>p i. no_coords),
         checksum_ok = (\<lambda>p. True)\<rparr> 0x80 [11] = ([], Decode_failure)
   \<and> fst (decode_event
        \<lparr>touch_count_of = (\<lambda>p. unat (p ! 0)), point_of = (\<lambda>p i. no_coords),
         checksum_ok = (\<lambda>p. True)\<rparr> 0x80 [2]) = [0, 1]"
  using decode_rejects_excess_touch_count
    [of "0x80" "\<lparr>touch_count_of = (\<lambda>p. unat (p ! 0)), point_of = (\<lambda>p i. no_coords),
         checksum_ok = (\<lambda>p. True)\<rparr>" "[11]"]
  by (simp add: GOODIX_TOUCH_EVENT_def GOODIX_MAX_TOUCH_def decode_event_def no_touch_data_def
      upt_conv_Cons)

section \<open>Properties of the command record\<close>






end
